theory Spec2Isabelle
  imports Main
begin

section \<open>Rows, querysets and the database\<close>

text \<open>
  The development embeds \<^verbatim>\<open>denorm/fields.py\<close>: the class \<^verbatim>\<open>Denorm\<close> (one
  denormalization rule), the registry \<^verbatim>\<open>alldenorms\<close> and \<^verbatim>\<open>rebuildall\<close>.
  The object-relational mapper is the environment. A model instance is a row: its model
  class, its primary key and its attribute values. The database is the list of stored
  rows. A queryset over a model is the list of primary keys it selects; it is evaluated
  against the database when the code resolves or iterates it.

  What is taken from the environment: a resolver answers at once, on the database as it
  is when \<^verbatim>\<open>resolve\<close> is called (the docstring of \<^verbatim>\<open>pre_update_handler\<close> relies on
  it); iterating a queryset loads all its rows before the first is processed; a signal
  calls its receivers one after the other, in the order of connection, and an exception
  in a receiver ends the dispatch and the save; compute functions and resolvers return
  a value. The only exceptions are a failed row write (\<^verbatim>\<open>db_error\<close>), \<^verbatim>\<open>getattr\<close>
  or \<^verbatim>\<open>del\<close> of a missing attribute and \<^verbatim>\<open>set.remove\<close> of a missing element.
\<close>

type_synonym pk = nat
type_synonym mname = string
type_synonym fname = string
type_synonym val = int

record model_instance =
  cls :: mname
  pk :: pk
  attrs :: "(fname \<times> val) list"

type_synonym database = "model_instance list"
type_synonym queryset = "pk list"

definition getattr :: "model_instance \<Rightarrow> fname \<Rightarrow> val option" where
  "getattr i f = map_of (attrs i) f"

definition setattr :: "model_instance \<Rightarrow> fname \<Rightarrow> val \<Rightarrow> model_instance" where
  "setattr i f v = i\<lparr>attrs := (f, v) # filter (\<lambda>p. fst p \<noteq> f) (attrs i)\<rparr>"

definition objects_none :: queryset where
  "objects_none = []"

definition objects_all :: "database \<Rightarrow> mname \<Rightarrow> queryset" where
  "objects_all s m = map pk (filter (\<lambda>i. cls i = m) s)"

definition objects_filter_pk :: "database \<Rightarrow> mname \<Rightarrow> pk \<Rightarrow> queryset" where
  "objects_filter_pk s m k = map pk (filter (\<lambda>i. cls i = m \<and> pk i = k) s)"

text \<open>\<^verbatim>\<open>a | b\<close> on querysets, and \<^verbatim>\<open>qs.distinct()\<close>.\<close>

definition qs_or :: "queryset \<Rightarrow> queryset \<Rightarrow> queryset" where
  "qs_or a b = a @ b"

definition qs_distinct :: "queryset \<Rightarrow> queryset" where
  "qs_distinct q = remdups q"

text \<open>Iterating a queryset loads the selected rows that the database holds.\<close>

definition fetch :: "database \<Rightarrow> mname \<Rightarrow> queryset \<Rightarrow> model_instance list" where
  "fetch s m q = concat (map (\<lambda>k. filter (\<lambda>i. cls i = m \<and> pk i = k) s) q)"

text \<open>The row write of \<^verbatim>\<open>instance.save()\<close>: replace the row with the same key, or insert.\<close>

fun db_write :: "database \<Rightarrow> model_instance \<Rightarrow> database" where
  "db_write [] i = [i]"
| "db_write (x # xs) i =
     (if cls x = cls i \<and> pk x = pk i then i # xs else x # db_write xs i)"

section \<open>Rules, their mutable state, and the world\<close>

datatype error = DatabaseError | AttributeError | KeyError | TypeError

datatype outcome = Returned | Raised error | NoFuel

datatype signal = PreSave | PostSave | PreDelete | PostDelete | PreUpdate | PostUpdate

datatype handler =
  PreHandler | PostHandler | PreUpdateHandler | PostUpdateHandler
  | SelfSaveHandler | SelfUpdateHandler

text \<open>
  The trace records what the engine does: a call of the compute function of a rule on a
  row, a call of \<^verbatim>\<open>update\<close> of a rule with its queryset, a lifecycle notification, a
  row write.
\<close>

datatype event =
  Called nat pk
  | Applied nat queryset
  | Sent signal mname pk
  | Written mname pk

text \<open>
  A \<^verbatim>\<open>Denorm\<close> object: \<^verbatim>\<open>did\<close> is its identity, \<^verbatim>\<open>model\<close> and \<^verbatim>\<open>fieldname\<close>
  are set by \<^verbatim>\<open>contribute_to_class\<close>, \<^verbatim>\<open>func\<close> is the compute function (it may read
  the database through the relations of the row), \<^verbatim>\<open>depend\<close> is \<^verbatim>\<open>func.depend\<close>:
  each resolver maps the changed rows of a sender model to rows of \<^verbatim>\<open>model\<close>.
\<close>

type_synonym resolver = "database \<Rightarrow> mname \<Rightarrow> queryset \<Rightarrow> queryset"

record denorm =
  did :: nat
  model :: mname
  fieldname :: fname
  func :: "database \<Rightarrow> model_instance \<Rightarrow> val"
  depend :: "resolver list"

text \<open>The attributes a \<^verbatim>\<open>Denorm\<close> object mutates; \<^verbatim>\<open>qs\<close> may be absent.\<close>

record denorm_state =
  updating :: "pk set"
  qs :: "queryset option"

record world =
  db :: database
  objs :: "nat \<Rightarrow> denorm_state"
  trace :: "event list"

record env =
  alldenorms :: "denorm list"
  db_error :: "database \<Rightarrow> model_instance \<Rightarrow> bool"

type_synonym save_fn = "model_instance \<Rightarrow> world \<Rightarrow> outcome \<times> world"

definition put_qs :: "denorm \<Rightarrow> queryset option \<Rightarrow> world \<Rightarrow> world" where
  "put_qs r q w = w\<lparr>objs := (objs w)(did r := (objs w (did r))\<lparr>qs := q\<rparr>)\<rparr>"

definition put_updating :: "denorm \<Rightarrow> pk set \<Rightarrow> world \<Rightarrow> world" where
  "put_updating r U w = w\<lparr>objs := (objs w)(did r := (objs w (did r))\<lparr>updating := U\<rparr>)\<rparr>"

definition log :: "event \<Rightarrow> world \<Rightarrow> world" where
  "log e w = w\<lparr>trace := trace w @ [e]\<rparr>"

section \<open>The handlers of a rule\<close>

text \<open>The loop \<^verbatim>\<open>for dependency in self.func.depend: self.qs |= dependency.resolve(changed_objs)\<close>.\<close>

definition resolve_all :: "denorm \<Rightarrow> database \<Rightarrow> mname \<Rightarrow> queryset \<Rightarrow> queryset \<Rightarrow> queryset" where
  "resolve_all r s sender changed_objs q =
     foldl (\<lambda>q dependency. qs_or q (dependency s sender changed_objs)) q (depend r)"

definition pre_update_handler :: "denorm \<Rightarrow> mname \<Rightarrow> queryset \<Rightarrow> world \<Rightarrow> world" where
  "pre_update_handler r sender changed_objs w =
     put_qs r (Some (resolve_all r (db w) sender changed_objs objects_none)) w"

definition pre_handler :: "denorm \<Rightarrow> mname \<Rightarrow> model_instance \<Rightarrow> world \<Rightarrow> world" where
  "pre_handler r sender i w =
     pre_update_handler r sender (objects_filter_pk (db w) sender (pk i)) w"

text \<open>
  The body of the loop of \<^verbatim>\<open>update\<close> for one loaded row. \<^verbatim>\<open>save\<close> is the
  environment's \<^verbatim>\<open>instance.save()\<close>; \<^verbatim>\<open>set.remove\<close> raises \<^verbatim>\<open>KeyError\<close> for a
  missing element and \<^verbatim>\<open>getattr\<close> raises \<^verbatim>\<open>AttributeError\<close> for a missing attribute.
\<close>

definition update_instance :: "save_fn \<Rightarrow> denorm \<Rightarrow> model_instance \<Rightarrow> world \<Rightarrow> outcome \<times> world" where
  "update_instance save r i w =
     (if pk i \<in> updating (objs w (did r)) then (Returned, w)
      else
        let new_value = func r (db w) i;
            w1 = log (Called (did r) (pk i)) w
        in case getattr i (fieldname r) of
             None \<Rightarrow> (Raised AttributeError, w1)
           | Some old \<Rightarrow>
               if old = new_value then (Returned, w1)
               else
                 let i' = setattr i (fieldname r) new_value;
                     w2 = put_updating r (insert (pk i) (updating (objs w1 (did r)))) w1
                 in case save i' w2 of
                      (Returned, w3) \<Rightarrow>
                        if pk i \<in> updating (objs w3 (did r))
                        then (Returned, put_updating r (updating (objs w3 (did r)) - {pk i}) w3)
                        else (Raised KeyError, w3)
                    | (out, w3) \<Rightarrow> (out, w3))"

fun update_loop :: "save_fn \<Rightarrow> denorm \<Rightarrow> model_instance list \<Rightarrow> world \<Rightarrow> outcome \<times> world" where
  "update_loop save r [] w = (Returned, w)"
| "update_loop save r (i # rest) w =
     (case update_instance save r i w of
        (Returned, w') \<Rightarrow> update_loop save r rest w'
      | (out, w') \<Rightarrow> (out, w'))"

definition update :: "save_fn \<Rightarrow> denorm \<Rightarrow> queryset \<Rightarrow> world \<Rightarrow> outcome \<times> world" where
  "update save r q w =
     update_loop save r (fetch (db w) (model r) (qs_distinct q)) (log (Applied (did r) q) w)"

text \<open>
  \<^verbatim>\<open>post_update_handler\<close>: \<^verbatim>\<open>post_qs\<close> is the value of \<^verbatim>\<open>self.qs\<close> after the loop over
  the resolvers, which is then passed to \<^verbatim>\<open>update\<close>. \<^verbatim>\<open>del self.qs\<close> raises
  \<^verbatim>\<open>AttributeError\<close> when the attribute is absent.
\<close>

definition post_qs :: "denorm \<Rightarrow> mname \<Rightarrow> queryset \<Rightarrow> world \<Rightarrow> queryset" where
  "post_qs r sender changed_objs w =
     resolve_all r (db w) sender changed_objs
       (case qs (objs w (did r)) of None \<Rightarrow> objects_none | Some q \<Rightarrow> q)"

definition post_update_handler :: "save_fn \<Rightarrow> denorm \<Rightarrow> mname \<Rightarrow> queryset \<Rightarrow> world \<Rightarrow> outcome \<times> world" where
  "post_update_handler save r sender changed_objs w =
     (let q = post_qs r sender changed_objs w
      in case update save r q (put_qs r (Some q) w) of
           (Returned, w') \<Rightarrow>
             if updating (objs w' (did r)) = {} then
               (case qs (objs w' (did r)) of
                  None \<Rightarrow> (Raised AttributeError, w')
                | Some _ \<Rightarrow> (Returned, put_qs r None w'))
             else (Returned, w')
         | (out, w') \<Rightarrow> (out, w'))"

definition post_handler :: "save_fn \<Rightarrow> denorm \<Rightarrow> mname \<Rightarrow> model_instance \<Rightarrow> world \<Rightarrow> outcome \<times> world" where
  "post_handler save r sender i w =
     post_update_handler save r sender (objects_filter_pk (db w) sender (pk i)) w"

definition self_update_handler :: "save_fn \<Rightarrow> denorm \<Rightarrow> mname \<Rightarrow> queryset \<Rightarrow> world \<Rightarrow> outcome \<times> world" where
  "self_update_handler save r sender changed_objs w = update save r changed_objs w"

definition self_save_handler :: "denorm \<Rightarrow> mname \<Rightarrow> model_instance \<Rightarrow> world \<Rightarrow> world \<times> model_instance" where
  "self_save_handler r sender i w =
     (if pk i \<notin> updating (objs w (did r))
      then (log (Called (did r) (pk i)) w, setattr i (fieldname r) (func r (db w) i))
      else (w, i))"

section \<open>Registration and signal dispatch\<close>

text \<open>
  \<^verbatim>\<open>Denorm.setup\<close> connects the handlers to the signals, in this order; a connection
  carries the sender it is restricted to, if any. (The resolvers are functions here, so
  their own \<^verbatim>\<open>setup\<close> does nothing.)
\<close>

type_synonym connection = "signal \<times> handler \<times> mname option"

definition setup_denorm :: "denorm \<Rightarrow> connection list" where
  "setup_denorm r =
     [(PreSave, PreHandler, None),
      (PostSave, PostHandler, None),
      (PreDelete, PreHandler, None),
      (PostDelete, PostHandler, None),
      (PreUpdate, PreUpdateHandler, None),
      (PostUpdate, PostUpdateHandler, None),
      (PreSave, SelfSaveHandler, Some (model r)),
      (PostUpdate, SelfUpdateHandler, Some (model r))]"

text \<open>
  The signal dispatcher of the environment: a signal sent by a sender reaches, in the
  order of connection, the receivers connected without a sender or with that sender.
\<close>

definition live_receivers :: "signal \<Rightarrow> mname \<Rightarrow> connection list \<Rightarrow> handler list" where
  "live_receivers sig sender cs =
     map (\<lambda>c. fst (snd c))
       (filter (\<lambda>c. fst c = sig \<and> (snd (snd c) = None \<or> snd (snd c) = Some sender)) cs)"

definition receivers :: "env \<Rightarrow> signal \<Rightarrow> mname \<Rightarrow> (denorm \<times> handler) list" where
  "receivers e sig sender =
     concat (map (\<lambda>r. map (Pair r) (live_receivers sig sender (setup_denorm r))) (alldenorms e))"

text \<open>
  Calling a receiver of a signal that carries an instance. A receiver may change the
  instance (\<^verbatim>\<open>self_save_handler\<close>); an exception stops the dispatch. The handlers of
  the bulk-update signals take a queryset where these signals pass an instance; \<^verbatim>\<open>setup\<close>
  never connects them to a signal that carries an instance.
\<close>

fun call_receiver :: "save_fn \<Rightarrow> denorm \<Rightarrow> handler \<Rightarrow> mname \<Rightarrow> model_instance \<Rightarrow> world
    \<Rightarrow> outcome \<times> world \<times> model_instance" where
  "call_receiver save r PreHandler sender i w = (Returned, pre_handler r sender i w, i)"
| "call_receiver save r PostHandler sender i w =
     (case post_handler save r sender i w of (out, w') \<Rightarrow> (out, w', i))"
| "call_receiver save r SelfSaveHandler sender i w =
     (case self_save_handler r sender i w of (w', i') \<Rightarrow> (Returned, w', i'))"
| "call_receiver save r h sender i w = (Raised TypeError, w, i)"

fun send :: "save_fn \<Rightarrow> (denorm \<times> handler) list \<Rightarrow> mname \<Rightarrow> model_instance \<Rightarrow> world
    \<Rightarrow> outcome \<times> world \<times> model_instance" where
  "send save [] sender i w = (Returned, w, i)"
| "send save ((r, h) # rest) sender i w =
     (case call_receiver save r h sender i w of
        (Returned, w', i') \<Rightarrow> send save rest sender i' w'
      | (out, w', i') \<Rightarrow> (out, w', i'))"

text \<open>
  \<^verbatim>\<open>instance.save()\<close> of the environment: the \<^verbatim>\<open>pre_save\<close> notification, the row
  write (which may fail), the \<^verbatim>\<open>post_save\<close> notification. The handlers reached by
  \<^verbatim>\<open>post_save\<close> call \<^verbatim>\<open>update\<close>, which saves again: \<^verbatim>\<open>save_body\<close> takes the save
  of the nested calls as a parameter and \<^verbatim>\<open>model_save\<close> closes the recursion with
  fuel, the depth of nested saves.
\<close>

definition save_body :: "env \<Rightarrow> save_fn \<Rightarrow> model_instance \<Rightarrow> world \<Rightarrow> outcome \<times> world" where
  "save_body e save i w =
     (case send save (receivers e PreSave (cls i)) (cls i) i (log (Sent PreSave (cls i) (pk i)) w) of
        (Returned, w1, i1) \<Rightarrow>
          if db_error e (db w1) i1 then (Raised DatabaseError, w1)
          else
            let w2 = log (Written (cls i1) (pk i1)) (w1\<lparr>db := db_write (db w1) i1\<rparr>)
            in (case send save (receivers e PostSave (cls i)) (cls i) i1
                       (log (Sent PostSave (cls i1) (pk i1)) w2) of
                  (out, w3, i3) \<Rightarrow> (out, w3))
      | (out, w1, i1) \<Rightarrow> (out, w1))"

fun model_save :: "env \<Rightarrow> nat \<Rightarrow> save_fn" where
  "model_save e 0 = (\<lambda>i w. (NoFuel, w))"
| "model_save e (Suc n) = save_body e (model_save e n)"

section \<open>The registry\<close>

fun rebuild_loop :: "save_fn \<Rightarrow> denorm list \<Rightarrow> world \<Rightarrow> outcome \<times> world" where
  "rebuild_loop save [] w = (Returned, w)"
| "rebuild_loop save (d # rest) w =
     (case update save d (objects_all (db w) (model d)) w of
        (Returned, w') \<Rightarrow> rebuild_loop save rest w'
      | (out, w') \<Rightarrow> (out, w'))"

definition rebuildall :: "env \<Rightarrow> nat \<Rightarrow> world \<Rightarrow> outcome \<times> world" where
  "rebuildall e n w = rebuild_loop (model_save e n) (alldenorms e) w"

section \<open>What a cascade may change\<close>

text \<open>
  \<^verbatim>\<open>frame_ok w out w'\<close> relates the world before and after a call that ended with
  \<^verbatim>\<open>out\<close>: no identifier leaves an updating-set, a call that returns leaves every
  updating-set as it found it, the trace only grows and holds no call of a compute
  function on a row that was in flight at entry, and a stored queryset of a rule with a
  row in flight stays stored.
\<close>

definition frame_ok :: "world \<Rightarrow> outcome \<Rightarrow> world \<Rightarrow> bool" where
  "frame_ok w out w' \<longleftrightarrow>
     (\<forall>d. updating (objs w d) \<subseteq> updating (objs w' d)) \<and>
     (out = Returned \<longrightarrow> (\<forall>d. updating (objs w' d) = updating (objs w d))) \<and>
     (\<exists>t. trace w' = trace w @ t \<and> (\<forall>d k. Called d k \<in> set t \<longrightarrow> k \<notin> updating (objs w d))) \<and>
     (\<forall>d. updating (objs w d) \<noteq> {} \<and> qs (objs w d) \<noteq> None \<longrightarrow> qs (objs w' d) \<noteq> None)"

definition save_ok :: "save_fn \<Rightarrow> bool" where
  "save_ok save \<longleftrightarrow> (\<forall>i w out w'. save i w = (out, w') \<longrightarrow> frame_ok w out w')"

section \<open>The specification's reading of the pre-mutation impact set\<close>

text \<open>
  The specification describes the set stored by the pre-phase as the resolvers' results
  together with the owning model's own changed rows. \<^verbatim>\<open>spec_pre_impact\<close> follows
  these words; it is compared with what \<^verbatim>\<open>pre_update_handler\<close> stores.
\<close>

definition spec_pre_impact :: "denorm \<Rightarrow> database \<Rightarrow> mname \<Rightarrow> queryset \<Rightarrow> queryset" where
  "spec_pre_impact r s sender changed_objs =
     qs_or (resolve_all r s sender changed_objs objects_none)
           (if sender = model r then changed_objs else objects_none)"

section \<open>An example registry\<close>

text \<open>
  Orders carry \<^verbatim>\<open>itemCount\<close>, the number of line items that reference them; the
  resolver maps changed line items to the orders they reference. Shipments carry
  \<^verbatim>\<open>dest\<close>, a copy of the order of the line item with the same key.
\<close>

definition line_items_of :: "database \<Rightarrow> pk \<Rightarrow> model_instance list" where
  "line_items_of s k =
     filter (\<lambda>l. cls l = ''LineItem'' \<and> getattr l ''order'' = Some (int k)) s"

definition orders_of :: resolver where
  "orders_of s sender changed_objs =
     (if sender = ''LineItem''
      then concat (map (\<lambda>l. case getattr l ''order'' of None \<Rightarrow> [] | Some v \<Rightarrow> [nat v])
                     (fetch s ''LineItem'' changed_objs))
      else [])"

definition order_rule :: denorm where
  "order_rule = \<lparr>did = 0, model = ''Order'', fieldname = ''itemCount'',
     func = (\<lambda>s i. int (length (line_items_of s (pk i)))), depend = [orders_of]\<rparr>"

definition shipments_of :: resolver where
  "shipments_of s sender changed_objs = (if sender = ''LineItem'' then changed_objs else [])"

definition ship_rule :: denorm where
  "ship_rule = \<lparr>did = 1, model = ''Shipment'', fieldname = ''dest'',
     func = (\<lambda>s i. case fetch s ''LineItem'' [pk i] of [] \<Rightarrow> 0
                    | l # _ \<Rightarrow> (case getattr l ''order'' of None \<Rightarrow> 0 | Some v \<Rightarrow> v)),
     depend = [shipments_of]\<rparr>"

text \<open>A rule without resolvers, and one whose compute function reads its own field.\<close>

definition bare_rule :: denorm where
  "bare_rule = \<lparr>did = 0, model = ''Order'', fieldname = ''itemCount'',
     func = (\<lambda>s i. 0), depend = []\<rparr>"

definition counter_rule :: denorm where
  "counter_rule = \<lparr>did = 0, model = ''Order'', fieldname = ''itemCount'',
     func = (\<lambda>s i. case getattr i ''itemCount'' of None \<Rightarrow> 0 | Some v \<Rightarrow> v + 1),
     depend = []\<rparr>"

definition order_row :: "pk \<Rightarrow> val \<Rightarrow> model_instance" where
  "order_row k n = \<lparr>cls = ''Order'', pk = k, attrs = [(''itemCount'', n)]\<rparr>"

definition line_item :: "pk \<Rightarrow> val \<Rightarrow> model_instance" where
  "line_item k ord = \<lparr>cls = ''LineItem'', pk = k, attrs = [(''order'', ord)]\<rparr>"

definition shipment :: "pk \<Rightarrow> val \<Rightarrow> model_instance" where
  "shipment k d = \<lparr>cls = ''Shipment'', pk = k, attrs = [(''dest'', d)]\<rparr>"

definition idle :: "nat \<Rightarrow> denorm_state" where
  "idle k = \<lparr>updating = {}, qs = None\<rparr>"

text \<open>
  \<^verbatim>\<open>depot\<close>: every stored value is up to date. \<^verbatim>\<open>stale_depot\<close>: order 1 still
  counts no item. \<^verbatim>\<open>busy_depot\<close>: order 2 is in flight for \<^verbatim>\<open>order_rule\<close>.
\<close>

definition depot :: world where
  "depot = \<lparr>db = [order_row 1 1, order_row 2 0, line_item 1 1, shipment 1 1],
            objs = idle, trace = []\<rparr>"

definition stale_depot :: world where
  "stale_depot = \<lparr>db = [order_row 1 0, order_row 2 0, line_item 1 1, shipment 1 1],
            objs = idle, trace = []\<rparr>"

definition busy_depot :: world where
  "busy_depot = \<lparr>db = [order_row 1 1, order_row 2 0, line_item 1 1, shipment 1 1],
            objs = idle(0 := \<lparr>updating = {2}, qs = None\<rparr>), trace = []\<rparr>"

definition registry :: "denorm list \<Rightarrow> env" where
  "registry ds = \<lparr>alldenorms = ds, db_error = (\<lambda>s i. False)\<rparr>"

definition read_only_orders :: "denorm list \<Rightarrow> env" where
  "read_only_orders ds = \<lparr>alldenorms = ds, db_error = (\<lambda>s i. cls i = ''Order'')\<rparr>"

section \<open>Compute functions that do not read denormalized fields\<close>

text \<open>
  Two rows have the same source when they have the same key and agree on every attribute
  that is not the field of a rule on their model; two databases have the same sources
  when their rows do, position by position. The compute functions of a registry are
  independent when they cannot tell such rows and databases apart. The registry is well
  formed when its rules are distinct objects with distinct (model, field) pairs.
\<close>

definition denorm_fields :: "denorm list \<Rightarrow> mname \<Rightarrow> fname set" where
  "denorm_fields ds m = fieldname ` {r \<in> set ds. model r = m}"

definition same_source :: "denorm list \<Rightarrow> model_instance \<Rightarrow> model_instance \<Rightarrow> bool" where
  "same_source ds i j \<longleftrightarrow>
     cls i = cls j \<and> pk i = pk j \<and>
     (\<forall>f. f \<notin> denorm_fields ds (cls i) \<longrightarrow> getattr i f = getattr j f)"





text \<open>
  Relative to a reference database \<^verbatim>\<open>s0\<close>: a row is right for a rule when it holds the
  computed value; a database evolves when each row stays as it is or is replaced by a
  row of the same source that is right for every rule of its model.
\<close>

definition ok :: "database \<Rightarrow> denorm \<Rightarrow> model_instance \<Rightarrow> bool" where
  "ok s0 r i \<longleftrightarrow> getattr i (fieldname r) = Some (func r s0 i)"

definition fully_ok :: "denorm list \<Rightarrow> database \<Rightarrow> model_instance \<Rightarrow> bool" where
  "fully_ok ds s0 i \<longleftrightarrow> (\<forall>r\<in>set ds. model r = cls i \<longrightarrow> ok s0 r i)"








section \<open>Cascades respect the updating-sets\<close>

lemmas op_defs = getattr_def setattr_def objects_none_def objects_all_def objects_filter_pk_def
  qs_or_def qs_distinct_def fetch_def put_qs_def put_updating_def log_def resolve_all_def
  pre_update_handler_def pre_handler_def update_instance_def update_def post_qs_def
  post_update_handler_def post_handler_def self_update_handler_def self_save_handler_def
  setup_denorm_def live_receivers_def receivers_def save_body_def rebuildall_def

lemmas ex_defs = line_items_of_def orders_of_def order_rule_def shipments_of_def ship_rule_def
  bare_rule_def counter_rule_def order_row_def line_item_def shipment_def idle_def depot_def
  stale_depot_def busy_depot_def registry_def read_only_orders_def

lemma frame_ok_refl: "frame_ok w out w"
  by (simp add: frame_ok_def)

lemma frame_ok_trans:
  assumes "frame_ok w Returned w1" and "frame_ok w1 out w2"
  shows "frame_ok w out w2"
proof -
  from assms(1) obtain t1 where t1: "trace w1 = trace w @ t1"
    "\<forall>d k. Called d k \<in> set t1 \<longrightarrow> k \<notin> updating (objs w d)"
    and u1: "\<forall>d. updating (objs w1 d) = updating (objs w d)"
    and q1: "\<forall>d. updating (objs w d) \<noteq> {} \<and> qs (objs w d) \<noteq> None \<longrightarrow> qs (objs w1 d) \<noteq> None"
    by (auto simp: frame_ok_def)
  from assms(2) obtain t2 where t2: "trace w2 = trace w1 @ t2"
    "\<forall>d k. Called d k \<in> set t2 \<longrightarrow> k \<notin> updating (objs w1 d)"
    and u2: "\<forall>d. updating (objs w1 d) \<subseteq> updating (objs w2 d)"
    "out = Returned \<longrightarrow> (\<forall>d. updating (objs w2 d) = updating (objs w1 d))"
    and q2: "\<forall>d. updating (objs w1 d) \<noteq> {} \<and> qs (objs w1 d) \<noteq> None \<longrightarrow> qs (objs w2 d) \<noteq> None"
    by (auto simp: frame_ok_def)
  have "trace w2 = trace w @ (t1 @ t2)" using t1 t2 by simp
  moreover have "\<forall>d k. Called d k \<in> set (t1 @ t2) \<longrightarrow> k \<notin> updating (objs w d)"
    using t1 t2 u1 by auto
  ultimately have tr: "\<exists>t. trace w2 = trace w @ t \<and> (\<forall>d k. Called d k \<in> set t \<longrightarrow> k \<notin> updating (objs w d))"
    by blast
  show ?thesis
    unfolding frame_ok_def using tr u1 u2 q1 q2 by auto
qed

lemma frame_ok_log:
  "(\<And>d k. e = Called d k \<Longrightarrow> k \<notin> updating (objs w d)) \<Longrightarrow> frame_ok w out (log e w)"
  by (auto simp: frame_ok_def log_def)

lemma frame_ok_db: "frame_ok w out (w\<lparr>db := s\<rparr>)"
  by (simp add: frame_ok_def)

lemma frame_ok_put_qs_Some: "frame_ok w out (put_qs r (Some q) w)"
  by (simp add: frame_ok_def put_qs_def)

lemma frame_ok_put_qs_None:
  "updating (objs w (did r)) = {} \<Longrightarrow> frame_ok w out (put_qs r None w)"
  by (simp add: frame_ok_def put_qs_def)

lemma frame_ok_weaken: "frame_ok w Returned w' \<Longrightarrow> frame_ok w out w'"
  by (simp add: frame_ok_def)

lemma frame_ok_bracket:
  assumes k: "k \<notin> updating (objs w (did r))"
    and f: "frame_ok (put_updating r (insert k (updating (objs w (did r)))) w) out w3"
  shows "out \<noteq> Returned \<Longrightarrow> frame_ok w out w3"
    and "out = Returned \<Longrightarrow> k \<in> updating (objs w3 (did r))"
    and "out = Returned \<Longrightarrow> frame_ok w Returned (put_updating r (updating (objs w3 (did r)) - {k}) w3)"
proof -
  let ?w2 = "put_updating r (insert k (updating (objs w (did r)))) w"
  have up2: "\<And>d. updating (objs w d) \<subseteq> updating (objs ?w2 d)"
    by (auto simp: put_updating_def)
  have qs2: "\<And>d. qs (objs ?w2 d) = qs (objs w d)" by (simp add: put_updating_def)
  have tr2: "trace ?w2 = trace w" by (simp add: put_updating_def)
  from f obtain t where t: "trace w3 = trace ?w2 @ t"
    "\<forall>d k. Called d k \<in> set t \<longrightarrow> k \<notin> updating (objs ?w2 d)"
    and u: "\<forall>d. updating (objs ?w2 d) \<subseteq> updating (objs w3 d)"
    "out = Returned \<longrightarrow> (\<forall>d. updating (objs w3 d) = updating (objs ?w2 d))"
    and q: "\<forall>d. updating (objs ?w2 d) \<noteq> {} \<and> qs (objs ?w2 d) \<noteq> None \<longrightarrow> qs (objs w3 d) \<noteq> None"
    by (auto simp: frame_ok_def)
  have tr: "\<exists>t. trace w3 = trace w @ t \<and> (\<forall>d k. Called d k \<in> set t \<longrightarrow> k \<notin> updating (objs w d))"
    using t tr2 up2 by (metis subsetD)
  have qq: "\<forall>d. updating (objs w d) \<noteq> {} \<and> qs (objs w d) \<noteq> None \<longrightarrow> qs (objs w3 d) \<noteq> None"
    using q qs2 up2 by (metis subset_empty)
  have mono: "\<forall>d. updating (objs w d) \<subseteq> updating (objs w3 d)"
    using u(1) up2 by (meson subset_trans)
  show "out \<noteq> Returned \<Longrightarrow> frame_ok w out w3"
    unfolding frame_ok_def using tr qq mono by simp
  show "out = Returned \<Longrightarrow> k \<in> updating (objs w3 (did r))"
    using u(2) by (simp add: put_updating_def)
  assume r: "out = Returned"
  let ?w4 = "put_updating r (updating (objs w3 (did r)) - {k}) w3"
  have eq: "\<forall>d. updating (objs ?w4 d) = updating (objs w d)"
    using u(2) r k by (auto simp: put_updating_def)
  have "trace ?w4 = trace w3" "\<And>d. qs (objs ?w4 d) = qs (objs w3 d)"
    by (simp_all add: put_updating_def)
  then show "frame_ok w Returned ?w4"
    unfolding frame_ok_def using tr qq eq by simp
qed

lemma update_instance_ok:
  assumes "save_ok save" and "update_instance save r i w = (out, w')"
  shows "frame_ok w out w'"
proof (cases "pk i \<in> updating (objs w (did r))")
  case True
  with assms(2) show ?thesis by (simp add: update_instance_def frame_ok_refl)
next
  case False
  let ?w1 = "log (Called (did r) (pk i)) w"
  have w1: "frame_ok w Returned ?w1" using False by (auto intro: frame_ok_log)
  show ?thesis
  proof (cases "getattr i (fieldname r)")
    case None
    with assms(2) False have "w' = ?w1" by (simp add: update_instance_def Let_def)
    with w1 show ?thesis by (simp add: frame_ok_weaken)
  next
    case (Some old)
    show ?thesis
    proof (cases "old = func r (db w) i")
      case True
      with assms(2) False Some have "w' = ?w1" by (simp add: update_instance_def Let_def)
      with w1 show ?thesis by (simp add: frame_ok_weaken)
    next
      case ne: False
      let ?i = "setattr i (fieldname r) (func r (db w) i)"
      let ?w2 = "put_updating r (insert (pk i) (updating (objs ?w1 (did r)))) ?w1"
      obtain out3 w3 where s: "save ?i ?w2 = (out3, w3)" by (cases "save ?i ?w2")
      with assms(1) have f: "frame_ok ?w2 out3 w3" by (auto simp: save_ok_def)
      have k: "pk i \<notin> updating (objs ?w1 (did r))" using False by (simp add: log_def)
      note br = frame_ok_bracket [OF k f]
      show ?thesis
      proof (cases "out3 = Returned")
        case True
        with br(2) have mem: "pk i \<in> updating (objs w3 (did r))" by simp
        with assms(2) False Some ne s True
        have "out = Returned" "w' = put_updating r (updating (objs w3 (did r)) - {pk i}) w3"
          by (simp_all add: update_instance_def Let_def)
        with br(3) True w1 show ?thesis by (auto intro: frame_ok_trans)
      next
        case nr: False
        with assms(2) False Some ne s have "out = out3" "w' = w3"
          by (auto simp: update_instance_def Let_def split: outcome.splits)
        with br(1) nr w1 show ?thesis by (auto intro: frame_ok_trans)
      qed
    qed
  qed
qed

lemma update_loop_ok:
  assumes "save_ok save"
  shows "update_loop save r insts w = (out, w') \<Longrightarrow> frame_ok w out w'"
proof (induction insts arbitrary: w)
  case Nil
  then show ?case by (simp add: frame_ok_refl)
next
  case (Cons i rest)
  obtain o1 w1 where s: "update_instance save r i w = (o1, w1)" by (cases "update_instance save r i w")
  from update_instance_ok [OF assms s] have f: "frame_ok w o1 w1" .
  show ?case
  proof (cases "o1 = Returned")
    case True
    with Cons.prems s have "update_loop save r rest w1 = (out, w')" by simp
    from Cons.IH [OF this] f True show ?thesis by (auto intro: frame_ok_trans)
  next
    case False
    with Cons.prems s have "out = o1" "w' = w1" by (auto split: outcome.splits)
    with f show ?thesis by simp
  qed
qed

lemma update_ok:
  assumes "save_ok save" and "update save r q w = (out, w')"
  shows "frame_ok w out w'"
proof -
  have "frame_ok w Returned (log (Applied (did r) q) w)" by (auto intro: frame_ok_log)
  moreover have "frame_ok (log (Applied (did r) q) w) out w'"
    using assms(2) update_loop_ok [OF assms(1)] by (simp add: update_def log_def)
  ultimately show ?thesis by (rule frame_ok_trans)
qed

lemma post_update_handler_ok:
  assumes "save_ok save" and "post_update_handler save r sender c w = (out, w')"
  shows "frame_ok w out w'"
proof -
  let ?q = "post_qs r sender c w"
  let ?w1 = "put_qs r (Some ?q) w"
  obtain o2 w2 where u: "update save r ?q ?w1 = (o2, w2)" by (cases "update save r ?q ?w1")
  have f: "frame_ok w o2 w2"
    using update_ok [OF assms(1) u] frame_ok_put_qs_Some [of w Returned r ?q]
    by (auto intro: frame_ok_trans)
  show ?thesis
  proof (cases "o2 = Returned")
    case True
    show ?thesis
    proof (cases "updating (objs w2 (did r)) = {}")
      case e: True
      show ?thesis
      proof (cases "qs (objs w2 (did r))")
        case None
        with assms(2) u True e have "w' = w2" by (simp add: post_update_handler_def Let_def)
        with f True show ?thesis by (simp add: frame_ok_weaken)
      next
        case (Some a)
        with assms(2) u True e have "w' = put_qs r None w2" "out = Returned"
          by (simp_all add: post_update_handler_def Let_def)
        with f True frame_ok_put_qs_None [OF e, of Returned] show ?thesis
          by (auto intro: frame_ok_trans)
      qed
    next
      case False
      with assms(2) u True have "w' = w2" "out = Returned" by (simp_all add: post_update_handler_def Let_def)
      with f True show ?thesis by simp
    qed
  next
    case False
    with assms(2) u have "out = o2" "w' = w2"
      by (auto simp: post_update_handler_def Let_def split: outcome.splits)
    with f show ?thesis by simp
  qed
qed

lemma call_receiver_ok:
  assumes "save_ok save" and "call_receiver save r h sender i w = (out, w', i')"
  shows "frame_ok w out w'"
proof (cases h)
  case PreHandler
  with assms(2) show ?thesis
    by (auto simp: pre_handler_def pre_update_handler_def intro: frame_ok_put_qs_Some)
next
  case PostHandler
  with assms(2) show ?thesis
    by (auto simp: post_handler_def split: prod.splits intro: post_update_handler_ok [OF assms(1)])
next
  case SelfSaveHandler
  with assms(2) show ?thesis
    by (auto simp: self_save_handler_def split: if_splits intro: frame_ok_log frame_ok_refl)
qed (use assms(2) in \<open>auto intro: frame_ok_refl\<close>)

lemma send_ok:
  assumes "save_ok save"
  shows "send save rs sender i w = (out, w', i') \<Longrightarrow> frame_ok w out w'"
proof (induction rs arbitrary: i w)
  case Nil
  then show ?case by (simp add: frame_ok_refl)
next
  case (Cons a rest)
  obtain r h where a: "a = (r, h)" by (cases a)
  obtain o1 w1 i1 where c: "call_receiver save r h sender i w = (o1, w1, i1)"
    by (cases "call_receiver save r h sender i w")
  from call_receiver_ok [OF assms c] have f: "frame_ok w o1 w1" .
  show ?case
  proof (cases "o1 = Returned")
    case True
    with Cons.prems a c have "send save rest sender i1 w1 = (out, w', i')" by simp
    from Cons.IH [OF this] f True show ?thesis by (auto intro: frame_ok_trans)
  next
    case False
    with Cons.prems a c have "out = o1" "w' = w1" by (auto split: outcome.splits)
    with f show ?thesis by simp
  qed
qed

lemma save_body_ok:
  assumes "save_ok save"
  shows "save_ok (save_body e save)"
  unfolding save_ok_def
proof (intro allI impI)
  fix i w out w'
  assume sb: "save_body e save i w = (out, w')"
  let ?w0 = "log (Sent PreSave (cls i) (pk i)) w"
  have f0: "frame_ok w Returned ?w0" by (auto intro: frame_ok_log)
  obtain o1 w1 i1 where s1: "send save (receivers e PreSave (cls i)) (cls i) i ?w0 = (o1, w1, i1)"
    by (cases "send save (receivers e PreSave (cls i)) (cls i) i ?w0")
  from send_ok [OF assms s1] have f1: "frame_ok ?w0 o1 w1" .
  show "frame_ok w out w'"
  proof (cases "o1 = Returned")
    case False
    with sb s1 have "out = o1" "w' = w1" by (auto simp: save_body_def split: outcome.splits)
    with f0 f1 show ?thesis by (auto intro: frame_ok_trans)
  next
    case True
    with f0 f1 have f01: "frame_ok w Returned w1" by (auto intro: frame_ok_trans)
    show ?thesis
    proof (cases "db_error e (db w1) i1")
      case True
      with sb s1 \<open>o1 = Returned\<close> have "w' = w1" by (simp add: save_body_def)
      with f01 show ?thesis by (simp add: frame_ok_weaken)
    next
      case False
      let ?w2 = "log (Sent PostSave (cls i1) (pk i1)) (log (Written (cls i1) (pk i1)) (w1\<lparr>db := db_write (db w1) i1\<rparr>))"
      let ?wa = "w1\<lparr>db := db_write (db w1) i1\<rparr>"
      let ?wb = "log (Written (cls i1) (pk i1)) ?wa"
      have fa: "frame_ok w1 Returned ?wa" by (rule frame_ok_db)
      have fb: "frame_ok ?wa Returned ?wb" by (rule frame_ok_log) simp
      have fc: "frame_ok ?wb Returned ?w2" by (rule frame_ok_log) simp
      have f2: "frame_ok w1 Returned ?w2"
        by (rule frame_ok_trans [OF frame_ok_trans [OF fa fb] fc])
      obtain o3 w3 i3 where s3: "send save (receivers e PostSave (cls i)) (cls i) i1 ?w2 = (o3, w3, i3)"
        by (cases "send save (receivers e PostSave (cls i)) (cls i) i1 ?w2")
      from send_ok [OF assms s3] have f3: "frame_ok ?w2 o3 w3" .
      from sb s1 \<open>o1 = Returned\<close> False s3 have "out = o3" "w' = w3"
        by (simp_all add: save_body_def Let_def)
      with f3 have "frame_ok ?w2 out w'" by simp
      with f01 f2 show ?thesis by (blast intro: frame_ok_trans)
    qed
  qed
qed

lemma model_save_ok: "save_ok (model_save e n)"
proof (induction n)
  case 0
  show ?case by (simp add: save_ok_def frame_ok_refl)
next
  case (Suc n)
  then show ?case by (simp add: save_body_ok)
qed

lemma frame_okD_mono:
  "frame_ok w out w' \<Longrightarrow> k \<in> updating (objs w d) \<Longrightarrow> k \<in> updating (objs w' d)"
  by (auto simp: frame_ok_def)

lemma frame_okD_quiet:
  "frame_ok w out w' \<Longrightarrow> k \<in> updating (objs w d)
     \<Longrightarrow> \<exists>t. trace w' = trace w @ t \<and> Called d k \<notin> set t"
  by (auto simp: frame_ok_def)

lemma frame_okD_restore:
  "frame_ok w Returned w' \<Longrightarrow> updating (objs w' d) = updating (objs w d)"
  by (simp add: frame_ok_def)

lemma frame_okD_qs:
  "frame_ok w out w' \<Longrightarrow> updating (objs w d) \<noteq> {} \<Longrightarrow> qs (objs w d) \<noteq> None
     \<Longrightarrow> qs (objs w' d) \<noteq> None"
  by (simp add: frame_ok_def)

lemma frame_okD_trace: "frame_ok w out w' \<Longrightarrow> \<exists>t. trace w' = trace w @ t"
  by (auto simp: frame_ok_def)

lemma update_trace_head:
  assumes "save_ok save" and "update save r q w = (out, w')"
  shows "\<exists>t. trace w' = trace w @ Applied (did r) q # t"
proof -
  have "frame_ok (log (Applied (did r) q) w) out w'"
    using assms(2) update_loop_ok [OF assms(1)] by (simp add: update_def log_def)
  from frame_okD_trace [OF this] show ?thesis by (simp add: log_def)
qed

lemma update_instance_raised:
  assumes "save_ok save" and "update_instance save r i w = (Raised x, w')"
    and "getattr i (fieldname r) \<noteq> None"
  shows "pk i \<in> updating (objs w' (did r))"
proof -
  from assms(2) have nk: "pk i \<notin> updating (objs w (did r))"
    by (auto simp: update_instance_def)
  from assms(3) obtain old where old: "getattr i (fieldname r) = Some old" by auto
  let ?w1 = "log (Called (did r) (pk i)) w"
  let ?i = "setattr i (fieldname r) (func r (db w) i)"
  let ?w2 = "put_updating r (insert (pk i) (updating (objs ?w1 (did r)))) ?w1"
  from assms(2) nk old have ne: "old \<noteq> func r (db w) i"
    by (auto simp: update_instance_def Let_def)
  obtain o3 w3 where s: "save ?i ?w2 = (o3, w3)" by (cases "save ?i ?w2")
  with assms(1) have f: "frame_ok ?w2 o3 w3" by (auto simp: save_ok_def)
  have "pk i \<in> updating (objs ?w2 (did r))" by (simp add: put_updating_def)
  from frame_okD_mono [OF f this] have m: "pk i \<in> updating (objs w3 (did r))" .
  from assms(2) nk old ne s m have "w' = w3"
    by (auto simp: update_instance_def Let_def split: outcome.splits)
  with m show ?thesis by simp
qed

lemma update_instance_write:
  assumes "save_ok save" and "pk i \<notin> updating (objs w (did r))"
    and "getattr i (fieldname r) = Some old" and "old \<noteq> func r (db w) i"
  shows "update_instance save r i w =
     (case save (setattr i (fieldname r) (func r (db w) i))
             (put_updating r (insert (pk i) (updating (objs w (did r))))
                (log (Called (did r) (pk i)) w)) of
        (Returned, w3) \<Rightarrow> (Returned, put_updating r (updating (objs w3 (did r)) - {pk i}) w3)
      | (out, w3) \<Rightarrow> (out, w3))"
proof -
  let ?w1 = "log (Called (did r) (pk i)) w"
  let ?i = "setattr i (fieldname r) (func r (db w) i)"
  let ?w2 = "put_updating r (insert (pk i) (updating (objs w (did r)))) ?w1"
  obtain o3 w3 where s: "save ?i ?w2 = (o3, w3)" by (cases "save ?i ?w2")
  with assms(1) have f: "frame_ok ?w2 o3 w3" by (auto simp: save_ok_def)
  have "pk i \<in> updating (objs ?w2 (did r))" by (simp add: put_updating_def)
  from frame_okD_mono [OF f this] have m: "pk i \<in> updating (objs w3 (did r))" .
  have u1: "updating (objs ?w1 (did r)) = updating (objs w (did r))" by (simp add: log_def)
  show ?thesis
    using assms(2-4) s m by (simp add: update_instance_def Let_def u1)
qed

lemma foldl_qs_or_set:
  "set (foldl (\<lambda>q dependency. qs_or q (dependency s sender c)) q ds)
     = set q \<union> (\<Union>d\<in>set ds. set (d s sender c))"
  by (induction ds arbitrary: q) (auto simp: qs_or_def)

lemma resolve_all_set:
  "set (resolve_all r s sender c q) = set q \<union> (\<Union>d\<in>set (depend r). set (d s sender c))"
  by (simp add: resolve_all_def foldl_qs_or_set)

text \<open>
  When the post-phase handler of a rule runs in the state its pre-phase handler left,
  with only the database changed in between, the queryset it passes to \<^verbatim>\<open>update\<close> is
  the union of the resolvers' results before and after the change.
\<close>

lemma post_qs_after_pre:
  "set (post_qs r sender c' ((pre_update_handler r sender c w)\<lparr>db := s'\<rparr>))
     = (\<Union>d\<in>set (depend r). set (d (db w) sender c))
       \<union> (\<Union>d\<in>set (depend r). set (d s' sender c'))"
  by (simp add: post_qs_def pre_update_handler_def put_qs_def resolve_all_set objects_none_def)

section \<open>The claims\<close>

text \<open>
  C1 (no write on no change). When the compute function returns the value the row
  already holds (the row as \<^verbatim>\<open>update\<close> loaded it, which is what the code compares
  with), \<^verbatim>\<open>update\<close> does nothing for that row but call the compute function:
  \<^verbatim>\<open>save\<close> is not called (the result does not depend on it), the database and every
  updating-set are as before, and the trace gains no notification and no write.
\<close>

theorem update_no_write_on_no_change:
  assumes "getattr i (fieldname r) = Some (func r (db w) i)"
  shows "update_instance save r i w =
           (Returned, if pk i \<in> updating (objs w (did r)) then w
                      else log (Called (did r) (pk i)) w)"
  using assms by (simp add: update_instance_def Let_def)

theorem update_no_write_on_no_change_witness:
  "getattr (order_row 2 0) (fieldname order_rule)
      = Some (func order_rule (db depot) (order_row 2 0))
   \<and> update_instance (model_save (registry [order_rule]) 5) order_rule (order_row 2 0) depot
      = (Returned, log (Called 0 2) depot)"
proof -
  have h: "getattr (order_row 2 0) (fieldname order_rule)
             = Some (func order_rule (db depot) (order_row 2 0))"
    by (simp add: ex_defs getattr_def)
  have "pk (order_row 2 0) \<notin> updating (objs depot (did order_rule))"
    by (simp add: ex_defs)
  with update_no_write_on_no_change [OF h] h show ?thesis by (simp add: ex_defs)
qed

text \<open>
  C2 (cycle safety). While an identifier is in the updating-set of a rule, \<^verbatim>\<open>update\<close>
  skips the row: it returns the world unchanged, without calling the compute function or
  \<^verbatim>\<open>save\<close>. Any save and any \<^verbatim>\<open>update\<close> that run meanwhile, with all they trigger,
  leave the identifier in the set and never call the compute function of the rule on it.
\<close>

theorem cycle_guard_skips_row_in_flight:
  assumes "k \<in> updating (objs w (did r))"
  shows "(pk i = k \<longrightarrow> update_instance save r i w = (Returned, w))
    \<and> (model_save e n j w = (out, w') \<longrightarrow>
          k \<in> updating (objs w' (did r))
          \<and> (\<exists>t. trace w' = trace w @ t \<and> Called (did r) k \<notin> set t))
    \<and> (update (model_save e n) r q w = (out2, w2) \<longrightarrow>
          k \<in> updating (objs w2 (did r))
          \<and> (\<exists>t. trace w2 = trace w @ t \<and> Called (did r) k \<notin> set t))"
proof (intro conjI impI)
  assume "pk i = k"
  with assms show "update_instance save r i w = (Returned, w)"
    by (simp add: update_instance_def)
next
  assume "model_save e n j w = (out, w')"
  with model_save_ok [of e n] have f: "frame_ok w out w'" by (auto simp: save_ok_def)
  from frame_okD_mono [OF f assms] show "k \<in> updating (objs w' (did r))" .
  from frame_okD_quiet [OF f assms]
  show "\<exists>t. trace w' = trace w @ t \<and> Called (did r) k \<notin> set t" .
next
  assume "update (model_save e n) r q w = (out2, w2)"
  from update_ok [OF model_save_ok this] have f: "frame_ok w out2 w2" .
  from frame_okD_mono [OF f assms] show "k \<in> updating (objs w2 (did r))" .
  from frame_okD_quiet [OF f assms]
  show "\<exists>t. trace w2 = trace w @ t \<and> Called (did r) k \<notin> set t" .
qed

theorem cycle_guard_skips_row_in_flight_witness:
  "2 \<in> updating (objs busy_depot (did order_rule))
   \<and> update_instance (model_save (registry [ship_rule, order_rule]) 3) order_rule
        (order_row 2 0) busy_depot = (Returned, busy_depot)
   \<and> 2 \<in> updating (objs (snd (model_save (registry [ship_rule, order_rule]) 3
                                  (line_item 1 2) busy_depot)) (did order_rule))
   \<and> Called 0 2 \<notin> set (trace (snd (model_save (registry [ship_rule, order_rule]) 3
                                  (line_item 1 2) busy_depot)))"
proof -
  let ?s = "model_save (registry [ship_rule, order_rule]) 3"
  have h: "2 \<in> updating (objs busy_depot (did order_rule))"
    by (simp add: busy_depot_def order_rule_def)
  have p: "pk (order_row 2 0) = 2" by (simp add: order_row_def)
  have e: "?s (line_item 1 2) busy_depot
             = (fst (?s (line_item 1 2) busy_depot), snd (?s (line_item 1 2) busy_depot))"
    by simp
  have t: "trace busy_depot = []" "did order_rule = 0"
    by (simp_all add: busy_depot_def order_rule_def)
  from cycle_guard_skips_row_in_flight [OF h, where i = "order_row 2 0" and save = ?s
      and e = "registry [ship_rule, order_rule]" and n = 3 and j = "line_item 1 2"
      and out = "fst (?s (line_item 1 2) busy_depot)"
      and w' = "snd (?s (line_item 1 2) busy_depot)"] p e h t
  show ?thesis by auto
qed

text \<open>
  C3 (pre/post symmetry) fails in a cascade. With \<^verbatim>\<open>ship_rule\<close> registered before
  \<^verbatim>\<open>order_rule\<close>, line item 1 moves from order 1 to order 2. Before the change the
  resolver of \<^verbatim>\<open>order_rule\<close> answers order 1, after it order 2. The post-phase of
  \<^verbatim>\<open>ship_rule\<close> runs first and saves a shipment; the handlers of \<^verbatim>\<open>order_rule\<close>
  run for that nested save, overwrite the stored queryset and delete it. The post-phase
  of \<^verbatim>\<open>order_rule\<close> for the line item then passes only order 2 to \<^verbatim>\<open>update\<close>, and
  order 1 keeps a count of 1 where the compute function gives 0.
\<close>

theorem pre_impact_lost_in_cascade:
  "resolve_all order_rule (db depot) ''LineItem'' [1] objects_none = [1]
   \<and> fst (model_save (registry [ship_rule, order_rule]) 3 (line_item 1 2) depot) = Returned
   \<and> trace (snd (model_save (registry [ship_rule, order_rule]) 3 (line_item 1 2) depot)) =
        [Sent PreSave ''LineItem'' 1, Written ''LineItem'' 1, Sent PostSave ''LineItem'' 1,
         Applied 1 [1, 1], Called 1 1,
         Sent PreSave ''Shipment'' 1, Written ''Shipment'' 1, Sent PostSave ''Shipment'' 1,
         Applied 1 [], Applied 0 [],
         Applied 0 [2], Called 0 2,
         Sent PreSave ''Order'' 2, Written ''Order'' 2, Sent PostSave ''Order'' 2,
         Applied 1 [], Applied 0 []]
   \<and> db (snd (model_save (registry [ship_rule, order_rule]) 3 (line_item 1 2) depot)) =
        [order_row 1 1, order_row 2 1, line_item 1 2, shipment 1 2]
   \<and> func order_rule [order_row 1 1, order_row 2 1, line_item 1 2, shipment 1 2]
        (order_row 1 1) = 0"
  by code_simp

text \<open>
  C4 (pre-mutation impact set), as amended. \<^verbatim>\<open>pre_update_handler\<close> stores the union
  of the resolvers' results on the changed rows, starting from the empty queryset; the
  owning model's own changed rows are not added. (A direct save of an owning row is
  served by \<^verbatim>\<open>self_save_handler\<close>, a bulk update by \<^verbatim>\<open>self_update_handler\<close>.)
\<close>

theorem pre_update_handler_impact:
  "qs (objs (pre_update_handler r sender changed_objs w) (did r))
      = Some (resolve_all r (db w) sender changed_objs objects_none)
   \<and> set (resolve_all r (db w) sender changed_objs objects_none)
      = (\<Union>dependency\<in>set (depend r). set (dependency (db w) sender changed_objs))"
  by (simp add: pre_update_handler_def put_qs_def resolve_all_set objects_none_def)

text \<open>
  C4 as stated fails: for a rule without resolvers, the pre-phase of a save of order 1
  stores the empty queryset, where the specification's reading holds order 1.
\<close>

theorem pre_update_handler_no_identity:
  "qs (objs (pre_handler bare_rule ''Order'' (order_row 1 1) depot) (did bare_rule)) = Some []
   \<and> spec_pre_impact bare_rule (db depot) ''Order''
        (objects_filter_pk (db depot) ''Order'' (pk (order_row 1 1))) = [1]"
  by (simp add: ex_defs op_defs spec_pre_impact_def)

text \<open>
  C5 (registration), as amended. \<^verbatim>\<open>setup\<close> connects the pre and post handlers to the
  save, delete and bulk-update signals of every sender; only \<^verbatim>\<open>self_save_handler\<close>
  (on \<^verbatim>\<open>pre_save\<close>) and \<^verbatim>\<open>self_update_handler\<close> (on \<^verbatim>\<open>post_update\<close>) are
  restricted to the owning model.
\<close>

theorem setup_connections:
  "live_receivers PreSave sender (setup_denorm r)
      = (if sender = model r then [PreHandler, SelfSaveHandler] else [PreHandler])
   \<and> live_receivers PostSave sender (setup_denorm r) = [PostHandler]
   \<and> live_receivers PreDelete sender (setup_denorm r) = [PreHandler]
   \<and> live_receivers PostDelete sender (setup_denorm r) = [PostHandler]
   \<and> live_receivers PreUpdate sender (setup_denorm r) = [PreUpdateHandler]
   \<and> live_receivers PostUpdate sender (setup_denorm r)
      = (if sender = model r then [PostUpdateHandler, SelfUpdateHandler]
         else [PostUpdateHandler])"
  by (auto simp add: live_receivers_def setup_denorm_def)

text \<open>
  C5 as stated fails: a rule on orders without resolvers still receives the signals of a
  shipment; saving a shipment runs its pre and post handlers, which call \<^verbatim>\<open>update\<close>.
\<close>

theorem handlers_receive_unrelated_sender:
  "model bare_rule = ''Order'' \<and> depend bare_rule = []
   \<and> live_receivers PreSave ''Shipment'' (setup_denorm bare_rule) = [PreHandler]
   \<and> live_receivers PostSave ''Shipment'' (setup_denorm bare_rule) = [PostHandler]
   \<and> trace (snd (model_save (registry [bare_rule]) 1 (shipment 1 2) depot))
      = [Sent PreSave ''Shipment'' 1, Written ''Shipment'' 1, Sent PostSave ''Shipment'' 1,
         Applied 0 []]"
  by code_simp

text \<open>
  C6 (the window of the updating-set). When \<^verbatim>\<open>update\<close> returns, every updating-set is
  what it was at entry. A row whose identifier is in the set is skipped. For a row whose
  value changed, the identifier is added, the row is saved in that state, and on return
  of the save the identifier is removed (it is always found).
\<close>

theorem updating_window:
  "(update (model_save e n) r q w = (Returned, w')
      \<longrightarrow> (\<forall>d. updating (objs w' d) = updating (objs w d)))
   \<and> (pk i \<in> updating (objs w (did r)) \<longrightarrow> update_instance save r i w = (Returned, w))
   \<and> (pk i \<notin> updating (objs w (did r)) \<and> getattr i (fieldname r) = Some old
        \<and> old \<noteq> func r (db w) i \<longrightarrow>
        update_instance (model_save e n) r i w =
          (case model_save e n (setattr i (fieldname r) (func r (db w) i))
                  (put_updating r (insert (pk i) (updating (objs w (did r))))
                     (log (Called (did r) (pk i)) w)) of
             (Returned, w3) \<Rightarrow>
               (Returned, put_updating r (updating (objs w3 (did r)) - {pk i}) w3)
           | (out, w3) \<Rightarrow> (out, w3)))"
proof (intro conjI impI allI)
  fix d
  assume "update (model_save e n) r q w = (Returned, w')"
  from update_ok [OF model_save_ok this] show "updating (objs w' d) = updating (objs w d)"
    by (rule frame_okD_restore)
next
  assume "pk i \<in> updating (objs w (did r))"
  then show "update_instance save r i w = (Returned, w)" by (simp add: update_instance_def)
next
  assume "pk i \<notin> updating (objs w (did r)) \<and> getattr i (fieldname r) = Some old
            \<and> old \<noteq> func r (db w) i"
  then show "update_instance (model_save e n) r i w =
          (case model_save e n (setattr i (fieldname r) (func r (db w) i))
                  (put_updating r (insert (pk i) (updating (objs w (did r))))
                     (log (Called (did r) (pk i)) w)) of
             (Returned, w3) \<Rightarrow>
               (Returned, put_updating r (updating (objs w3 (did r)) - {pk i}) w3)
           | (out, w3) \<Rightarrow> (out, w3))"
    by (intro update_instance_write [OF model_save_ok]) blast+
qed

theorem updating_window_witness:
  "fst (update (model_save (registry [order_rule]) 2) order_rule [1, 2] stale_depot) = Returned
   \<and> updating (objs (snd (update (model_save (registry [order_rule]) 2) order_rule [1, 2]
                            stale_depot)) 0)
      = updating (objs stale_depot 0)
   \<and> Written ''Order'' 1
      \<in> set (trace (snd (update (model_save (registry [order_rule]) 2) order_rule [1, 2]
                           stale_depot)))
   \<and> pk (order_row 2 0) \<in> updating (objs busy_depot (did order_rule))
   \<and> update_instance (model_save (registry [order_rule]) 2) order_rule (order_row 2 0)
        busy_depot = (Returned, busy_depot)"
proof -
  let ?s = "model_save (registry [order_rule]) 2"
  let ?u = "update ?s order_rule [1, 2] stale_depot"
  have a: "fst ?u = Returned" by code_simp
  then have h: "?u = (Returned, snd ?u)" by (simp add: prod_eq_iff)
  have b: "Written ''Order'' 1 \<in> set (trace (snd ?u))" by code_simp
  have c: "pk (order_row 2 0) \<in> updating (objs busy_depot (did order_rule))"
    by (simp add: ex_defs)
  from updating_window [where e = "registry [order_rule]" and n = 2 and r = order_rule
      and q = "[1, 2]" and w = stale_depot and w' = "snd ?u"] h
  have "updating (objs (snd ?u) 0) = updating (objs stale_depot 0)" by blast
  moreover from updating_window [where r = order_rule and i = "order_row 2 0"
      and w = busy_depot and save = ?s] c
  have "update_instance ?s order_rule (order_row 2 0) busy_depot = (Returned, busy_depot)"
    by blast
  ultimately show ?thesis using a b c by blast
qed

lemma map_of_filter_other:
  "f \<noteq> g \<Longrightarrow> map_of (filter (\<lambda>p. fst p \<noteq> g) xs) f = map_of xs f"
  by (induction xs) auto

text \<open>
  C8 (the self pre-save handler). \<^verbatim>\<open>self_save_handler\<close> is connected to \<^verbatim>\<open>pre_save\<close>
  of the owning model, so it runs before the row is written. When the identifier is not
  in the updating-set it sets the field of the instance to the computed value and
  leaves the key and the other attributes alone; when it is, the instance and the world
  are unchanged. In a registry of this one rule, the instance that the \<^verbatim>\<open>pre_save\<close>
  dispatch hands to the row write carries the computed value.
\<close>

theorem self_save_handler_sets_field:
  "self_save_handler r sender i w =
     (if pk i \<in> updating (objs w (did r)) then (w, i)
      else (log (Called (did r) (pk i)) w, setattr i (fieldname r) (func r (db w) i)))
   \<and> getattr (setattr i (fieldname r) v) (fieldname r) = Some v
   \<and> (f \<noteq> fieldname r \<longrightarrow> getattr (setattr i (fieldname r) v) f = getattr i f)
   \<and> pk (setattr i (fieldname r) v) = pk i \<and> cls (setattr i (fieldname r) v) = cls i
   \<and> live_receivers PreSave (model r) (setup_denorm r) = [PreHandler, SelfSaveHandler]
   \<and> live_receivers PostSave (model r) (setup_denorm r) = [PostHandler]
   \<and> (alldenorms e = [r] \<and> cls i = model r \<and> pk i \<notin> updating (objs w (did r)) \<longrightarrow>
        send save (receivers e PreSave (cls i)) (cls i) i w =
          (Returned, log (Called (did r) (pk i)) (pre_handler r (cls i) i w),
           setattr i (fieldname r) (func r (db w) i)))"
proof -
  have other: "f \<noteq> fieldname r \<longrightarrow> getattr (setattr i (fieldname r) v) f = getattr i f"
    by (simp add: getattr_def setattr_def map_of_filter_other)
  have last: "alldenorms e = [r] \<and> cls i = model r \<and> pk i \<notin> updating (objs w (did r)) \<longrightarrow>
        send save (receivers e PreSave (cls i)) (cls i) i w =
          (Returned, log (Called (did r) (pk i)) (pre_handler r (cls i) i w),
           setattr i (fieldname r) (func r (db w) i))"
    by (simp add: receivers_def live_receivers_def setup_denorm_def self_save_handler_def
        pre_handler_def pre_update_handler_def put_qs_def)
  show ?thesis
    using other last
    by (simp add: self_save_handler_def getattr_def setattr_def live_receivers_def
        setup_denorm_def)
qed

theorem self_save_handler_sets_field_witness:
  "''order'' \<noteq> fieldname order_rule
   \<and> alldenorms (registry [order_rule]) = [order_rule]
   \<and> cls (order_row 1 7) = model order_rule
   \<and> pk (order_row 1 7) \<notin> updating (objs depot (did order_rule))
   \<and> getattr (setattr (order_row 1 7) (fieldname order_rule) 1) ''order''
      = getattr (order_row 1 7) ''order''
   \<and> send (model_save (registry [order_rule]) 2)
        (receivers (registry [order_rule]) PreSave ''Order'') ''Order'' (order_row 1 7) depot
      = (Returned, log (Called 0 1) (pre_handler order_rule ''Order'' (order_row 1 7) depot),
         order_row 1 1)"
proof -
  have a: "''order'' \<noteq> fieldname order_rule" by (simp add: order_rule_def)
  have b: "alldenorms (registry [order_rule]) = [order_rule]" by (simp add: registry_def)
  have c: "cls (order_row 1 7) = model order_rule" by (simp add: order_rule_def order_row_def)
  have d: "pk (order_row 1 7) \<notin> updating (objs depot (did order_rule))"
    by (simp add: ex_defs)
  have v: "setattr (order_row 1 7) (fieldname order_rule) (func order_rule (db depot) (order_row 1 7))
             = order_row 1 1"
    by (simp add: ex_defs op_defs)
  have k: "did order_rule = 0" "pk (order_row 1 7) = 1" "cls (order_row 1 7) = ''Order''"
    by (simp_all add: order_rule_def order_row_def)
  note t = self_save_handler_sets_field [where r = order_rule and i = "order_row 1 7"
      and w = depot and f = "''order''" and v = 1 and e = "registry [order_rule]"
      and save = "model_save (registry [order_rule]) 2"]
  from t a have g: "getattr (setattr (order_row 1 7) (fieldname order_rule) 1) ''order''
      = getattr (order_row 1 7) ''order''" by blast
  from t b c d have "send (model_save (registry [order_rule]) 2)
        (receivers (registry [order_rule]) PreSave (cls (order_row 1 7))) (cls (order_row 1 7))
        (order_row 1 7) depot
      = (Returned, log (Called (did order_rule) (pk (order_row 1 7)))
                     (pre_handler order_rule (cls (order_row 1 7)) (order_row 1 7) depot),
         setattr (order_row 1 7) (fieldname order_rule)
           (func order_rule (db depot) (order_row 1 7)))" by blast
  then have "send (model_save (registry [order_rule]) 2)
        (receivers (registry [order_rule]) PreSave ''Order'') ''Order'' (order_row 1 7) depot
      = (Returned, log (Called 0 1) (pre_handler order_rule ''Order'' (order_row 1 7) depot),
         order_row 1 1)" by (simp only: v k)
  with a b c d g show ?thesis by blast
qed

text \<open>
  C9 (the post-phase handler). When \<^verbatim>\<open>post_update_handler\<close> returns, the stored
  queryset is absent exactly when the updating-set of the rule is empty. The queryset it
  passes to \<^verbatim>\<open>update\<close> is the stored one joined with the resolvers' results on the
  database as it is now; when none is stored, it starts from the empty queryset.
\<close>

theorem post_update_handler_clears:
  assumes "post_update_handler (model_save e n) r sender c w = (Returned, w')"
  shows "(qs (objs w' (did r)) = None \<longleftrightarrow> updating (objs w' (did r)) = {})
    \<and> (\<exists>t. trace w' = trace w @ Applied (did r) (post_qs r sender c w) # t)
    \<and> set (post_qs r sender c w)
        = set (case qs (objs w (did r)) of None \<Rightarrow> [] | Some q0 \<Rightarrow> q0)
          \<union> (\<Union>dependency\<in>set (depend r). set (dependency (db w) sender c))
    \<and> (qs (objs w (did r)) = None
         \<longrightarrow> post_qs r sender c w = resolve_all r (db w) sender c objects_none)"
proof -
  let ?s = "model_save e n"
  let ?q = "post_qs r sender c w"
  let ?w1 = "put_qs r (Some ?q) w"
  obtain o2 w2 where u: "update ?s r ?q ?w1 = (o2, w2)" by (cases "update ?s r ?q ?w1")
  from assms u have o2: "o2 = Returned"
    by (auto simp: post_update_handler_def Let_def split: outcome.splits if_splits option.splits)
  from update_ok [OF model_save_ok u] have f: "frame_ok ?w1 o2 w2" .
  from update_trace_head [OF model_save_ok u]
  obtain t where t: "trace w2 = trace w @ Applied (did r) ?q # t"
    by (auto simp: put_qs_def)
  have q1: "qs (objs ?w1 (did r)) \<noteq> None" by (simp add: put_qs_def)
  have iff_tr: "(qs (objs w' (did r)) = None \<longleftrightarrow> updating (objs w' (did r)) = {})
                  \<and> trace w' = trace w2"
  proof (cases "updating (objs w2 (did r)) = {}")
    case True
    with assms u o2 have "w' = put_qs r None w2"
      by (auto simp: post_update_handler_def Let_def split: option.splits)
    with True show ?thesis by (simp add: put_qs_def)
  next
    case False
    with assms u o2 have w': "w' = w2" by (simp add: post_update_handler_def Let_def)
    from f o2 have "updating (objs ?w1 (did r)) = updating (objs w2 (did r))"
      by (simp add: frame_okD_restore)
    with False have "updating (objs ?w1 (did r)) \<noteq> {}" by simp
    from frame_okD_qs [OF f this q1] False w' show ?thesis by simp
  qed
  have s: "set ?q = set (case qs (objs w (did r)) of None \<Rightarrow> [] | Some q0 \<Rightarrow> q0)
          \<union> (\<Union>dependency\<in>set (depend r). set (dependency (db w) sender c))"
    by (simp add: post_qs_def resolve_all_set objects_none_def split: option.splits)
  have n: "qs (objs w (did r)) = None
         \<longrightarrow> ?q = resolve_all r (db w) sender c objects_none"
    by (simp add: post_qs_def)
  from iff_tr t s n show ?thesis by auto
qed

theorem post_update_handler_clears_witness:
  "fst (post_update_handler (model_save (registry [order_rule]) 2) order_rule ''LineItem'' [1]
          stale_depot) = Returned
   \<and> qs (objs stale_depot (did order_rule)) = None
   \<and> post_qs order_rule ''LineItem'' [1] stale_depot = [1]
   \<and> updating (objs (snd (post_update_handler (model_save (registry [order_rule]) 2)
                             order_rule ''LineItem'' [1] stale_depot)) (did order_rule)) = {}
   \<and> qs (objs (snd (post_update_handler (model_save (registry [order_rule]) 2)
                       order_rule ''LineItem'' [1] stale_depot)) (did order_rule)) = None"
proof -
  let ?p = "post_update_handler (model_save (registry [order_rule]) 2) order_rule ''LineItem''
              [1] stale_depot"
  have a: "fst ?p = Returned" by code_simp
  then have h: "?p = (Returned, snd ?p)" by (simp add: prod_eq_iff)
  have b: "qs (objs stale_depot (did order_rule)) = None" by (simp add: ex_defs)
  have c: "post_qs order_rule ''LineItem'' [1] stale_depot = [1]" by code_simp
  have d: "updating (objs (snd ?p) (did order_rule)) = {}" by code_simp
  from post_update_handler_clears [OF h] d
  have "qs (objs (snd ?p) (did order_rule)) = None" by blast
  with a b c d show ?thesis by blast
qed

text \<open>
  C10 (a failed save). When processing a row that has the field raises an exception, the
  exception is the result of \<^verbatim>\<open>update\<close> and the identifier stays in the updating-set
  of the rule. From then on \<^verbatim>\<open>update\<close> skips the row, and every later \<^verbatim>\<open>update\<close> of
  the rule and every later save, with all they trigger, leave the identifier in the set
  and never call the compute function of the rule on the row.
\<close>

theorem failed_save_leaves_row_in_flight:
  assumes "update_instance (model_save e n) r i w = (Raised x, w')"
    and "getattr i (fieldname r) \<noteq> None"
  shows "pk i \<in> updating (objs w' (did r))
    \<and> update_loop (model_save e n) r (i # rest) w = (Raised x, w')
    \<and> (pk j = pk i \<longrightarrow> update_instance save r j w' = (Returned, w'))
    \<and> (update (model_save e m) r q w' = (out, w'') \<longrightarrow>
          pk i \<in> updating (objs w'' (did r))
          \<and> (\<exists>t. trace w'' = trace w' @ t \<and> Called (did r) (pk i) \<notin> set t))
    \<and> (model_save e m j2 w' = (out2, w2) \<longrightarrow>
          pk i \<in> updating (objs w2 (did r))
          \<and> (\<exists>t. trace w2 = trace w' @ t \<and> Called (did r) (pk i) \<notin> set t))"
proof -
  from update_instance_raised [OF model_save_ok assms]
  have m: "pk i \<in> updating (objs w' (did r))" .
  have l: "update_loop (model_save e n) r (i # rest) w = (Raised x, w')"
    using assms(1) by simp
  have s: "pk j = pk i \<longrightarrow> update_instance save r j w' = (Returned, w')"
    using m by (simp add: update_instance_def)
  have u: "update (model_save e m) r q w' = (out, w'') \<longrightarrow>
          pk i \<in> updating (objs w'' (did r))
          \<and> (\<exists>t. trace w'' = trace w' @ t \<and> Called (did r) (pk i) \<notin> set t)"
  proof
    assume "update (model_save e m) r q w' = (out, w'')"
    from update_ok [OF model_save_ok this] have f: "frame_ok w' out w''" .
    from frame_okD_mono [OF f m] frame_okD_quiet [OF f m]
    show "pk i \<in> updating (objs w'' (did r))
          \<and> (\<exists>t. trace w'' = trace w' @ t \<and> Called (did r) (pk i) \<notin> set t)" by simp
  qed
  have v: "model_save e m j2 w' = (out2, w2) \<longrightarrow>
          pk i \<in> updating (objs w2 (did r))
          \<and> (\<exists>t. trace w2 = trace w' @ t \<and> Called (did r) (pk i) \<notin> set t)"
  proof
    assume "model_save e m j2 w' = (out2, w2)"
    with model_save_ok [of e m] have f: "frame_ok w' out2 w2" by (auto simp: save_ok_def)
    from frame_okD_mono [OF f m] frame_okD_quiet [OF f m]
    show "pk i \<in> updating (objs w2 (did r))
          \<and> (\<exists>t. trace w2 = trace w' @ t \<and> Called (did r) (pk i) \<notin> set t)" by simp
  qed
  from m l s u v show ?thesis by simp
qed

theorem failed_save_leaves_row_in_flight_witness:
  "fst (update_instance (model_save (read_only_orders [order_rule]) 2) order_rule
          (order_row 1 0) stale_depot) = Raised DatabaseError
   \<and> getattr (order_row 1 0) (fieldname order_rule) \<noteq> None
   \<and> pk (order_row 1 0)
      \<in> updating (objs (snd (update_instance (model_save (read_only_orders [order_rule]) 2)
                                order_rule (order_row 1 0) stale_depot)) (did order_rule))
   \<and> update_instance (model_save (registry [order_rule]) 2) order_rule (order_row 1 0)
        (snd (update_instance (model_save (read_only_orders [order_rule]) 2) order_rule
                (order_row 1 0) stale_depot))
      = (Returned, snd (update_instance (model_save (read_only_orders [order_rule]) 2)
                          order_rule (order_row 1 0) stale_depot))"
proof -
  let ?u = "update_instance (model_save (read_only_orders [order_rule]) 2) order_rule
              (order_row 1 0) stale_depot"
  have a: "fst ?u = Raised DatabaseError" by code_simp
  then have h: "?u = (Raised DatabaseError, snd ?u)" by (simp add: prod_eq_iff)
  have g: "getattr (order_row 1 0) (fieldname order_rule) \<noteq> None"
    by (simp add: ex_defs getattr_def)
  from failed_save_leaves_row_in_flight [OF h g, where j = "order_row 1 0"
      and save = "model_save (registry [order_rule]) 2"] a g
  show ?thesis by simp
qed

section \<open>Rebuilding with independent compute functions\<close>




lemma same_source_key: "same_source ds i j \<Longrightarrow> cls i = cls j \<and> pk i = pk j"
  by (simp add: same_source_def)























lemma fully_ok_D: "fully_ok ds s0 j \<Longrightarrow> r \<in> set ds \<Longrightarrow> model r = cls j \<Longrightarrow> ok s0 r j"
  by (simp add: fully_ok_def)























end
